theory Spec2Isabelle
  imports Complex_Main "HOL-Library.Sublist"
begin

section \<open>The motion planner of raveInterface.py\<close>

text \<open>
  The class \<open>Motion_planning\<close> refines a coarse path, waypoint pair by waypoint pair,
  through an external trajectory optimizer, and checks every candidate against a
  self-collision test. The simulation environment, the collision backend, the coarse
  planner, the forward kinematics and the optimizer are external collaborators: they
  are the fields of the record \<open>environment\<close>, and the general theorems hold for all of
  them.
  Joint values are Python floats, written as the real numbers they denote. What numpy
  computes from them in binary64, with rounding, belongs to the environment; line 160 is
  modelled on binary64 values.
\<close>

subsection \<open>Data\<close>

type_synonym waypoint = "real list"

text \<open>
  The robot's joint values, read through the arm indices of a manipulator:
  \<open>SetDOFValues(v, GetManipulator(a).GetArmIndices())\<close> makes the entry of \<open>a\<close> equal \<open>v\<close>.
\<close>

type_synonym pose = "string \<Rightarrow> real list"

datatype error =
  AttributeError | IndexError | AssertionError | ValueError | OverflowError | NameError
| No_path_is_safe

text \<open>
  A binary64 value: a finite one, given by the real number it denotes, an infinity or a
  NaN.
\<close>

datatype float64 = Finite real | PInf | NInf | NaN

text \<open>The request document of \<open>__set_request\<close> (lines 55 to 116), key for key.\<close>

record basic =
  n_steps :: int
  manip :: string
  start_fixed :: bool

datatype cost =
  Joint_vel (coeffs: "int list")
| Collision (coeffs: "int list") (dist_pen: "real list") (continuous: bool)

datatype constraint =
  Joint (vals: "real list")
| Cart_vel (name: string) (max_displacement: int) (first_step: int) (last_step: int)
    (link: string)

datatype init =
  Straight_line (endpoint: "real list")
| Stationary

text \<open>
  \<open>init_info\<close> is the one key that is deleted and set again (lines 165 to 181): it is
  \<open>None\<close> while the dictionary has no such key.
\<close>

record request =
  basic_info :: basic
  costs :: "cost list"
  constraints :: "constraint list"
  init_info :: "init option"

text \<open>
  One optimization attempt as the outside world sees it: the request handed to the
  optimizer (line 184), the robot's joint values at that moment, the trajectory that came
  back (line 185) and the verdict of \<open>__check_safe\<close> on it (line 187).
\<close>

record attempt =
  submitted :: request
  pose_at_submit :: pose
  candidate :: "waypoint list"
  safe :: bool

text \<open>The external collaborators.\<close>

record environment =
  get_endEffector_fromDOF :: "waypoint \<Rightarrow> float64 list"
  np_subtract :: "float64 list \<Rightarrow> float64 list \<Rightarrow> float64 list option"
  np_linalg_norm :: "float64 list \<Rightarrow> float64"
  GetDOFLimits_lower_last :: real
  CheckCollision :: "pose \<Rightarrow> bool"
  OptimizeProblem :: "request \<Rightarrow> pose \<Rightarrow> waypoint list"
  PlanPath :: "string \<Rightarrow> string \<Rightarrow> pose \<Rightarrow> real list \<Rightarrow> waypoint list option"
  Simplifier :: "string \<Rightarrow> pose \<Rightarrow> waypoint list \<Rightarrow> waypoint list option"

text \<open>
  \<open>get_endEffector_fromDOF\<close> is the forward kinematics of module \<open>IK\<close>;
  \<open>np_subtract\<close> is \<open>np.array(eff1) - np.array(eff2)\<close> of line 159, in binary64 and
  \<open>None\<close> when numpy raises \<open>ValueError\<close> on the two shapes; \<open>np_linalg_norm\<close> is
  \<open>np.linalg.norm\<close> of line 159, in binary64 as numpy rounds it;
  \<open>GetDOFLimits_lower_last\<close> is \<open>robot.GetDOFLimits()[0][-1]\<close> (line 175);
  \<open>CheckCollision\<close> is the backend's answer, in contact-reporting mode (line 203), for
  links 3 and 6 of the body \<open>dvrk\<close> at the given joint values (line 207);
  \<open>OptimizeProblem\<close> is \<open>ConstructProblem\<close> followed by \<open>OptimizeProblem\<close> and
  \<open>GetTraj\<close> (lines 183 to 187), which sees the request and the environment;
  \<open>PlanPath\<close> and \<open>Simplifier\<close> return \<open>None\<close> when their status is not
  \<open>HasSolution\<close>.

  The state of a \<open>Motion_planning\<close> object. The two DOF attributes hold references to
  Python lists, which line 177 updates in place: \<open>store\<close> maps a reference to the list's
  current content, and an attribute that was never assigned is \<open>None\<close>. \<open>robot\<close> is the
  pose of \<open>self.robot\<close>. The attributes \<open>plan_arm\<close>, \<open>target\<close>, \<open>request\<close> and \<open>traj\<close>
  are assigned by \<open>optimize\<close> before it reads them, so they have a value from the start.
  \<open>attempts\<close> is the history of the optimization attempts made so far, in order; the
  code does not read it.
\<close>

record Motion_planning =
  store :: "nat \<Rightarrow> real list"
  left_arm_DOF :: "nat option"
  right_arm_DOF :: "nat option"
  robot :: pose
  plan_arm :: string
  target :: waypoint
  request :: request
  traj :: "waypoint list"
  attempts :: "attempt list"

text \<open>A raised exception leaves the object as it was at that moment.\<close>

type_synonym 'a result = "(error \<times> Motion_planning) + 'a"

definition SetDOFValues :: "pose \<Rightarrow> real list \<Rightarrow> string \<Rightarrow> pose" where
  "SetDOFValues r v arm = r(arm := v)"

text \<open>
  \<open>self.robot.SetDOFValues(t, self.robot.GetManipulator(self.plan_arm).GetArmIndices())\<close>,
  the statement of lines 162, 198 and 206.
\<close>

definition move_plan_arm :: "Motion_planning \<Rightarrow> waypoint \<Rightarrow> Motion_planning" where
  "move_plan_arm s t = s\<lparr>robot := SetDOFValues (robot s) t (plan_arm s)\<rparr>"

subsection \<open>The request builder\<close>

definition set_request :: "Motion_planning \<Rightarrow> string \<Rightarrow> waypoint \<Rightarrow> int \<Rightarrow> Motion_planning" where
  "set_request s manip_name joint_target n =
     s\<lparr>plan_arm := manip_name,
       target := joint_target,
       request :=
         \<lparr>basic_info = \<lparr>n_steps = n, manip = manip_name, start_fixed = True\<rparr>,
          costs =
            [Joint_vel [100, 100, 1],
             Collision [10000] [0.1] True,
             Collision [10000] [0.1] False],
          constraints =
            [Joint joint_target,
             Cart_vel ''s0_vel'' 1 0 (n - 1) ''s0'',
             Cart_vel ''s1_vel'' 1 0 (n - 1) ''s1''],
          init_info = None\<rparr>\<rparr>"

subsection \<open>Manipulators\<close>

definition get_manip :: "string \<Rightarrow> string option" where
  "get_manip nm =
     (if nm = ''left_arm'' then Some ''left_arm''
      else if nm = ''right_arm'' then Some ''right_arm''
      else None)"

text \<open>\<open>set_manip\<close> (lines 128 to 136) keeps the reference it is given, not a copy.\<close>

definition set_manip :: "Motion_planning \<Rightarrow> string \<Rightarrow> nat \<Rightarrow> Motion_planning result" where
  "set_manip s nm DOF =
     (if \<not> (nm = ''left_arm'' \<or> nm = ''right_arm'') then Inl (AssertionError, s)
      else
        let s1 = (if nm = ''left_arm'' then s\<lparr>left_arm_DOF := Some DOF\<rparr>
                  else s\<lparr>right_arm_DOF := Some DOF\<rparr>)
        in Inr (s1\<lparr>robot := SetDOFValues (robot s1) (store s1 DOF) nm\<rparr>))"

text \<open>
  \<open>eval('self.' + self.plan_arm + '_DOF')\<close> of line 176: the attribute of that name, if
  the object has it.
\<close>

definition arm_DOF :: "Motion_planning \<Rightarrow> string \<Rightarrow> nat option" where
  "arm_DOF s nm =
     (if nm = ''left_arm'' then left_arm_DOF s
      else if nm = ''right_arm'' then right_arm_DOF s
      else None)"

subsection \<open>The safety validator\<close>

text \<open>\<open>__check_safe\<close> (lines 201 to 212): the verdict and the object afterwards.\<close>

fun check_safe :: "environment \<Rightarrow> Motion_planning \<Rightarrow> waypoint list \<Rightarrow> bool \<times> Motion_planning" where
  "check_safe env s [] = (True, s)"
| "check_safe env s (t # ts) =
     (let s' = move_plan_arm s t
      in if CheckCollision env (robot s') then (False, s') else check_safe env s' ts)"

text \<open>What line 207 answers once line 206 has put the planning arm at the sample \<open>t\<close>.\<close>

definition contact_at :: "environment \<Rightarrow> Motion_planning \<Rightarrow> waypoint \<Rightarrow> bool" where
  "contact_at env s t = CheckCollision env (SetDOFValues (robot s) t (plan_arm s))"

subsection \<open>Step sizing\<close>

definition step_dis_ratio :: real where
  "step_dis_ratio = 0.5"

text \<open>The largest finite binary64 value.\<close>

definition DBL_MAX :: real where
  "DBL_MAX = (2 - 1 / 2 ^ 52) * 2 ^ 1023"

text \<open>
  Line 160, \<open>n_steps = max(int(ceil(dis / step_dis_ratio)), 3)\<close>, operation by operation.
  \<open>dis / step_dis_ratio\<close> divides a binary64 value by 0.5: the quotient is exact, or an
  infinity when it is beyond the largest finite value.
\<close>

definition div_step_dis_ratio :: "float64 \<Rightarrow> float64" where
  "div_step_dis_ratio dis =
     (case dis of
        Finite x \<Rightarrow>
          if DBL_MAX < \<bar>x / step_dis_ratio\<bar> then (if 0 < x then PInf else NInf)
          else Finite (x / step_dis_ratio)
      | PInf \<Rightarrow> PInf
      | NInf \<Rightarrow> NInf
      | NaN \<Rightarrow> NaN)"

text \<open>\<open>math.ceil\<close> gives a float again; it leaves an infinity or a NaN as it is.\<close>

definition math_ceil :: "float64 \<Rightarrow> float64" where
  "math_ceil y =
     (case y of
        Finite v \<Rightarrow> Finite (of_int \<lceil>v\<rceil>)
      | PInf \<Rightarrow> PInf
      | NInf \<Rightarrow> NInf
      | NaN \<Rightarrow> NaN)"

text \<open>
  \<open>int\<close> of a float truncates towards zero, raises \<open>OverflowError\<close> on an infinity and
  \<open>ValueError\<close> on a NaN.
\<close>

definition py_int :: "float64 \<Rightarrow> error + int" where
  "py_int y =
     (case y of
        Finite v \<Rightarrow> Inr (if 0 \<le> v then \<lfloor>v\<rfloor> else \<lceil>v\<rceil>)
      | PInf \<Rightarrow> Inl OverflowError
      | NInf \<Rightarrow> Inl OverflowError
      | NaN \<Rightarrow> Inl ValueError)"

definition step_count :: "float64 \<Rightarrow> error + int" where
  "step_count dis =
     (case py_int (math_ceil (div_step_dis_ratio dis)) of
        Inl e \<Rightarrow> Inl e
      | Inr n \<Rightarrow> Inr (max n 3))"

subsection \<open>The escalation loop\<close>

text \<open>
  Lines 165 to 181 for one value of \<open>j\<close>: the key \<open>init_info\<close> is deleted and set again.
  For \<open>j = 1\<close> the list that the arm's DOF attribute refers to is changed in place.
\<close>

text \<open>Line 177, \<open>pull_back[-1] = max(limit, pull_back[-1] - 5)\<close>, on a list that is not empty.\<close>

definition pulled_back :: "real \<Rightarrow> real list \<Rightarrow> real list" where
  "pulled_back limit pull_back =
     pull_back[length pull_back - 1 := max limit (last pull_back - 5)]"

definition set_init_info :: "environment \<Rightarrow> Motion_planning \<Rightarrow> nat \<Rightarrow> Motion_planning result" where
  "set_init_info env s j =
     (let s0 = s\<lparr>request := (request s)\<lparr>init_info := None\<rparr>\<rparr> in
      if j = 0 then
        Inr (s0\<lparr>request := (request s0)\<lparr>init_info := Some (Straight_line (target s0))\<rparr>\<rparr>)
      else if j = 1 then
        (let limit = GetDOFLimits_lower_last env in
         case arm_DOF s0 (plan_arm s0) of
           None \<Rightarrow> Inl (AttributeError, s0)
         | Some a \<Rightarrow>
             (let pull_back = store s0 a in
              if pull_back = [] then Inl (IndexError, s0)
              else
                let pull_back' = pulled_back limit pull_back;
                    s1 = s0\<lparr>store := (store s0)(a := pull_back')\<rparr>
                in Inr (s1\<lparr>request := (request s1)\<lparr>init_info := Some (Straight_line pull_back')\<rparr>\<rparr>)))
      else if j = 2 then
        Inr (s0\<lparr>request := (request s0)\<lparr>init_info := Some Stationary\<rparr>\<rparr>)
      else Inr s0)"

text \<open>Lines 165 to 187 for one value of \<open>j\<close>: the candidate, the verdict, the object.\<close>

definition attempt_j ::
  "environment \<Rightarrow> Motion_planning \<Rightarrow> nat \<Rightarrow> (waypoint list \<times> bool \<times> Motion_planning) result" where
  "attempt_j env s j =
     (case set_init_info env s j of
        Inl e \<Rightarrow> Inl e
      | Inr s1 \<Rightarrow>
          (let res = OptimizeProblem env (request s1) (robot s1);
               (ok, s2) = check_safe env s1 res;
               s3 = s2\<lparr>attempts := attempts s2 @
                      [\<lparr>submitted = request s1, pose_at_submit = robot s1,
                        candidate = res, safe = ok\<rparr>]\<rparr>
           in Inr (res, ok, s3)))"

text \<open>
  The loop \<open>for j in range(3)\<close> (lines 164 to 192) over the values of \<open>j\<close> still to come;
  \<open>res\<close> is the variable \<open>result\<close>, unbound before the first pass.
\<close>

fun for_j ::
  "environment \<Rightarrow> Motion_planning \<Rightarrow> nat list \<Rightarrow> waypoint list option \<Rightarrow>
   (waypoint list option \<times> Motion_planning) result" where
  "for_j env s [] res = Inr (res, s)"
| "for_j env s (j # js) res =
     (case attempt_j env s j of
        Inl e \<Rightarrow> Inl e
      | Inr (r, ok, s') \<Rightarrow>
          if ok then Inr (Some r, s')
          else if j = 2 then Inl (No_path_is_safe, s')
          else for_j env s' js (Some r))"

subsection \<open>One segment, all segments\<close>

text \<open>Lines 156 to 162: step count, request, and the robot put at the start waypoint.\<close>

definition prepare ::
  "environment \<Rightarrow> Motion_planning \<Rightarrow> string \<Rightarrow> waypoint list \<Rightarrow> nat \<Rightarrow> Motion_planning result" where
  "prepare env s manip_name trajectory i =
     (if \<not> Suc i < length trajectory then Inl (IndexError, s)
      else
        let eff1 = get_endEffector_fromDOF env (trajectory ! Suc i);
            eff2 = get_endEffector_fromDOF env (trajectory ! i)
        in case np_subtract env eff1 eff2 of
             None \<Rightarrow> Inl (ValueError, s)
           | Some d \<Rightarrow>
               (let dis = np_linalg_norm env d in
                case step_count dis of
                  Inl e \<Rightarrow> Inl (e, s)
                | Inr n \<Rightarrow>
                    (let s1 = set_request s manip_name (trajectory ! Suc i) n
                     in Inr (move_plan_arm s1 (trajectory ! i)))))"

text \<open>
  Line 193 after the loop over \<open>j\<close>: \<open>self.traj += result.GetTraj().tolist()\<close>, where
  \<open>result\<close> is the candidate of the last pass.
\<close>

definition append_result ::
  "(waypoint list option \<times> Motion_planning) result \<Rightarrow> Motion_planning result" where
  "append_result out =
     (case out of
        Inl e \<Rightarrow> Inl e
      | Inr (None, s3) \<Rightarrow> Inl (NameError, s3)
      | Inr (Some r, s3) \<Rightarrow> Inr (s3\<lparr>traj := traj s3 @ r\<rparr>))"

text \<open>The body of the loop over \<open>i\<close> (lines 156 to 193).\<close>

definition refine_segment ::
  "environment \<Rightarrow> Motion_planning \<Rightarrow> string \<Rightarrow> waypoint list \<Rightarrow> nat \<Rightarrow> Motion_planning result" where
  "refine_segment env s manip_name trajectory i =
     (case prepare env s manip_name trajectory i of
        Inl e \<Rightarrow> Inl e
      | Inr s2 \<Rightarrow> append_result (for_j env s2 [0, 1, 2] None))"

fun for_i ::
  "environment \<Rightarrow> Motion_planning \<Rightarrow> string \<Rightarrow> waypoint list \<Rightarrow> nat list \<Rightarrow> Motion_planning result" where
  "for_i env s manip_name trajectory [] = Inr s"
| "for_i env s manip_name trajectory (i # is) =
     (case refine_segment env s manip_name trajectory i of
        Inl e \<Rightarrow> Inl e
      | Inr s' \<Rightarrow> for_i env s' manip_name trajectory is)"

text \<open>
  \<open>__init_traj\<close> (lines 214 to 249). The active joints are those of the arm \<open>manip\<close>, and
  they are set to the values of \<open>self.right_arm_DOF\<close> whichever arm it is (line 228).
  The robot's state is saved around the two planner calls (line 236).
\<close>

definition init_traj ::
  "environment \<Rightarrow> Motion_planning \<Rightarrow> string \<Rightarrow> real list list \<Rightarrow> string \<Rightarrow>
   (waypoint list \<times> Motion_planning) result" where
  "init_traj env s manip_name joint_target algorithm =
     (case get_manip manip_name of
        None \<Rightarrow> Inl (AttributeError, s)
      | Some arm \<Rightarrow>
          (case right_arm_DOF s of
             None \<Rightarrow> Inl (AttributeError, s)
           | Some a \<Rightarrow>
               (let s1 = s\<lparr>robot := SetDOFValues (robot s) (store s a) arm\<rparr> in
                case joint_target of
                  [] \<Rightarrow> Inl (IndexError, s1)
                | goal # _ \<Rightarrow>
                    (case PlanPath env algorithm arm (robot s1) goal of
                       None \<Rightarrow> Inl (AssertionError, s1)
                     | Some path \<Rightarrow>
                         (case Simplifier env arm (robot s1) path of
                            None \<Rightarrow> Inl (AssertionError, s1)
                          | Some trajectory \<Rightarrow> Inr (trajectory, s1))))))"

text \<open>\<open>optimize\<close> (lines 138 to 194).\<close>

definition optimize ::
  "environment \<Rightarrow> Motion_planning \<Rightarrow> string \<Rightarrow> real list list \<Rightarrow> string \<Rightarrow> Motion_planning result" where
  "optimize env s manip_name joint_target algorithm =
     (case init_traj env s manip_name joint_target algorithm of
        Inl e \<Rightarrow> Inl e
      | Inr (trajectory, s1) \<Rightarrow>
          for_i env (s1\<lparr>traj := []\<rparr>) manip_name trajectory [0..<length trajectory - 1])"

text \<open>\<open>simulate\<close> (lines 196 to 199) plays \<open>self.traj\<close> on the robot.\<close>

definition simulate :: "Motion_planning \<Rightarrow> Motion_planning" where
  "simulate s = foldl move_plan_arm s (traj s)"

text \<open>Lines 266 and 267 of the script: optimize, then play the result.\<close>

definition run ::
  "environment \<Rightarrow> Motion_planning \<Rightarrow> string \<Rightarrow> real list list \<Rightarrow> string \<Rightarrow> Motion_planning result" where
  "run env s manip_name joint_target algorithm =
     (case optimize env s manip_name joint_target algorithm of
        Inl e \<Rightarrow> Inl e
      | Inr s' \<Rightarrow> Inr (simulate s'))"

subsection \<open>The escalation policy as specified\<close>

text \<open>
  The three initializations in their fixed order, as the specification lists them: a
  straight line to the segment's target, a straight line to the arm's stored joint values
  with the last joint pulled back, and no motion.
\<close>

definition escalation_policy :: "environment \<Rightarrow> Motion_planning \<Rightarrow> init list" where
  "escalation_policy env s =
     [Straight_line (target s),
      Straight_line
        (pulled_back (GetDOFLimits_lower_last env) (store s (the (arm_DOF s (plan_arm s))))),
      Stationary]"

text \<open>
  What the escalation loop leaves alone: the planning arm's name, the target, the
  accumulated trajectory, the two DOF references, every key of the request but
  \<open>init_info\<close>, and the joint values of everything but the planning arm.
\<close>

definition loop_frame :: "Motion_planning \<Rightarrow> Motion_planning \<Rightarrow> bool" where
  "loop_frame s s' =
     (plan_arm s' = plan_arm s \<and> target s' = target s \<and> traj s' = traj s \<and>
      left_arm_DOF s' = left_arm_DOF s \<and> right_arm_DOF s' = right_arm_DOF s \<and>
      basic_info (request s') = basic_info (request s) \<and>
      costs (request s') = costs (request s) \<and>
      constraints (request s') = constraints (request s) \<and>
      (\<forall>v. SetDOFValues (robot s') v (plan_arm s) = SetDOFValues (robot s) v (plan_arm s)))"

text \<open>
  What holds of an attempt recorded during the escalation loop that started in \<open>s\<close>: the
  candidate is the optimizer's answer to the recorded request and pose, the verdict is the
  absence of contact at every sample of the candidate, the request has the keys that
  \<open>__set_request\<close> wrote, and only the planning arm can stand elsewhere than in \<open>s\<close>.
\<close>

definition attempt_ok :: "environment \<Rightarrow> Motion_planning \<Rightarrow> attempt \<Rightarrow> bool" where
  "attempt_ok env s a =
     (candidate a = OptimizeProblem env (submitted a) (pose_at_submit a) \<and>
      safe a = (\<forall>t\<in>set (candidate a). \<not> contact_at env s t) \<and>
      basic_info (submitted a) = basic_info (request s) \<and>
      costs (submitted a) = costs (request s) \<and>
      constraints (submitted a) = constraints (request s) \<and>
      (\<forall>v. SetDOFValues (pose_at_submit a) v (plan_arm s) =
           SetDOFValues (robot s) v (plan_arm s)))"

definition init_for :: "environment \<Rightarrow> Motion_planning \<Rightarrow> nat \<Rightarrow> init option" where
  "init_for env s j = (if j < 3 then Some (escalation_policy env s ! j) else None)"

text \<open>The object in an outcome, whether the call returned or raised.\<close>

definition final :: "Motion_planning result \<Rightarrow> Motion_planning" where
  "final out = (case out of Inl (e, x) \<Rightarrow> x | Inr x \<Rightarrow> x)"

subsection \<open>Test doubles\<close>

text \<open>
  A one-joint environment in which the end effector is at the joint value, the two links
  touch exactly when the right arm is at \<open>[1]\<close>, numpy works on one-element arrays of
  finite values (on the small integers used here binary64 is exact), an optimizer answers
  the current pose followed by the endpoint of the initialization, and a planner object on
  which nothing has been set yet.
\<close>

definition stub_env :: environment where
  "stub_env =
     \<lparr>get_endEffector_fromDOF = (\<lambda>w. map Finite w),
      np_subtract =
        (\<lambda>xs ys. case (xs, ys) of
                    ([Finite u], [Finite v]) \<Rightarrow> Some [Finite (u - v)]
                  | _ \<Rightarrow> None),
      np_linalg_norm = (\<lambda>d. case d of [Finite u] \<Rightarrow> Finite \<bar>u\<bar> | _ \<Rightarrow> NaN),
      GetDOFLimits_lower_last = 0,
      CheckCollision = (\<lambda>p. p ''right_arm'' = [1]),
      OptimizeProblem =
        (\<lambda>q p. case init_info q of
                  Some (Straight_line e) \<Rightarrow> [p (manip (basic_info q)), e]
                | _ \<Rightarrow> [p (manip (basic_info q))]),
      PlanPath = (\<lambda>algorithm arm p goal. Some [p arm, [2], goal]),
      Simplifier = (\<lambda>arm p path. Some path)\<rparr>"

definition new_planner :: Motion_planning where
  "new_planner =
     \<lparr>store = (\<lambda>a. if a = 0 then [3, 1] else if a = 1 then [0] else []),
      left_arm_DOF = None,
      right_arm_DOF = None,
      robot = (\<lambda>arm. []),
      plan_arm = [],
      target = [],
      request = \<lparr>basic_info = \<lparr>n_steps = 0, manip = [], start_fixed = False\<rparr>,
                 costs = [], constraints = [], init_info = None\<rparr>,
      traj = [],
      attempts = []\<rparr>"

text \<open>
  The same planner once \<open>set_manip\<close> has been given the list at reference 1 for the right
  arm, and then as line 162 leaves it for the segment from \<open>[2]\<close> to \<open>[1]\<close>.
\<close>

definition armed_planner :: Motion_planning where
  "armed_planner = final (set_manip new_planner ''right_arm'' 1)"

definition primed :: Motion_planning where
  "primed = move_plan_arm (set_request armed_planner ''right_arm'' [1] 3) [2]"

section \<open>Properties\<close>

subsection \<open>Setting joint values\<close>

lemma SetDOFValues_twice [simp]:
  "SetDOFValues (SetDOFValues r v arm) w arm = SetDOFValues r w arm"
  by (simp add: SetDOFValues_def)

lemma SetDOFValues_same [simp]: "SetDOFValues r v arm arm = v"
  by (simp add: SetDOFValues_def)

lemma move_plan_arm_fields [simp]:
  "robot (move_plan_arm s t) = SetDOFValues (robot s) t (plan_arm s)"
  "plan_arm (move_plan_arm s t) = plan_arm s"
  "store (move_plan_arm s t) = store s"
  "left_arm_DOF (move_plan_arm s t) = left_arm_DOF s"
  "right_arm_DOF (move_plan_arm s t) = right_arm_DOF s"
  "target (move_plan_arm s t) = target s"
  "request (move_plan_arm s t) = request s"
  "traj (move_plan_arm s t) = traj s"
  "attempts (move_plan_arm s t) = attempts s"
  by (simp_all add: move_plan_arm_def)

lemma move_plan_arm_twice [simp]:
  "move_plan_arm (move_plan_arm s x) t = move_plan_arm s t"
  by (simp add: move_plan_arm_def)

lemma contact_at_moved [simp]:
  "contact_at env (move_plan_arm s x) t = contact_at env s t"
  by (simp add: contact_at_def)

lemma check_safe_Cons [simp]:
  "check_safe env s (t # ts) =
     (if contact_at env s t then (False, move_plan_arm s t)
      else check_safe env (move_plan_arm s t) ts)"
  by (simp add: Let_def contact_at_def)

declare check_safe.simps(2) [simp del]

lemma check_safe_verdict:
  "fst (check_safe env s tr) = (\<forall>t\<in>set tr. \<not> contact_at env s t)"
  by (induction tr arbitrary: s) simp_all

lemma check_safe_stops:
  assumes "\<forall>x\<in>set xs. \<not> contact_at env s x" and "contact_at env s t"
  shows "check_safe env s (xs @ t # ys) = (False, move_plan_arm s t)"
  using assms
  by (induction xs arbitrary: s) simp_all

lemma check_safe_passes:
  assumes "\<forall>x\<in>set tr. \<not> contact_at env s x" and "tr \<noteq> []"
  shows "check_safe env s tr = (True, move_plan_arm s (last tr))"
  using assms
proof (induction tr arbitrary: s)
  case Nil
  then show ?case by simp
next
  case (Cons x xs)
  then show ?case
    by (cases "xs = []") simp_all
qed

text \<open>
  Claim C3. \<open>__check_safe\<close> answers unsafe exactly when some sample of the trajectory,
  with the planning arm put at that sample, is in contact. It takes the samples in order
  and stops at the first contact: whatever follows that sample changes neither the verdict
  nor the object, so a backend that always reports contact rejects at the first sample.
  With no contact at any sample the answer is safe.
\<close>

theorem check_safe_unsafe_iff_contact:
  "(\<not> fst (check_safe env s tr)) = (\<exists>t\<in>set tr. contact_at env s t) \<and>
   ((\<forall>x\<in>set xs. \<not> contact_at env s x) \<and> contact_at env s t \<longrightarrow>
      \<not> fst (check_safe env s (xs @ t # ys)) \<and>
      check_safe env s (xs @ t # ys) = check_safe env s (xs @ [t])) \<and>
   ((\<forall>p. CheckCollision env p) \<longrightarrow>
      \<not> fst (check_safe env s (t # ys)) \<and>
      check_safe env s (t # ys) = check_safe env s [t]) \<and>
   ((\<forall>t\<in>set tr. \<not> contact_at env s t) \<longrightarrow> fst (check_safe env s tr))"
proof (intro conjI impI)
  show "(\<not> fst (check_safe env s tr)) = (\<exists>t\<in>set tr. contact_at env s t)"
    by (simp add: check_safe_verdict)
next
  assume h: "(\<forall>x\<in>set xs. \<not> contact_at env s x) \<and> contact_at env s t"
  then show "\<not> fst (check_safe env s (xs @ t # ys))"
    by (simp add: check_safe_verdict)
  from h show "check_safe env s (xs @ t # ys) = check_safe env s (xs @ [t])"
    by (simp add: check_safe_stops)
next
  assume h: "\<forall>p. CheckCollision env p"
  then have c: "contact_at env s t" by (simp add: contact_at_def)
  then show "\<not> fst (check_safe env s (t # ys))"
    by (simp add: check_safe_verdict)
  from c show "check_safe env s (t # ys) = check_safe env s [t]"
    using check_safe_stops [of "[]" env s t] by simp
next
  assume "\<forall>t\<in>set tr. \<not> contact_at env s t"
  then show "fst (check_safe env s tr)" by (simp add: check_safe_verdict)
qed

lemma stub_contact:
  "contact_at stub_env (new_planner\<lparr>plan_arm := ''right_arm''\<rparr>) t = (t = [1])"
  by (simp add: contact_at_def stub_env_def new_planner_def SetDOFValues_def)

theorem check_safe_unsafe_iff_contact_witness:
  "\<not> contact_at stub_env (new_planner\<lparr>plan_arm := ''right_arm''\<rparr>) [0] \<and>
   \<not> contact_at stub_env (new_planner\<lparr>plan_arm := ''right_arm''\<rparr>) [2] \<and>
   contact_at stub_env (new_planner\<lparr>plan_arm := ''right_arm''\<rparr>) [1] \<and>
   \<not> fst (check_safe stub_env (new_planner\<lparr>plan_arm := ''right_arm''\<rparr>) [[0], [2], [1], [3]]) \<and>
   check_safe stub_env (new_planner\<lparr>plan_arm := ''right_arm''\<rparr>) [[0], [2], [1], [3]] =
   check_safe stub_env (new_planner\<lparr>plan_arm := ''right_arm''\<rparr>) [[0], [2], [1]] \<and>
   (\<forall>p. CheckCollision (stub_env\<lparr>CheckCollision := \<lambda>p. True\<rparr>) p) \<and>
   check_safe (stub_env\<lparr>CheckCollision := \<lambda>p. True\<rparr>) new_planner [[0], [2]] =
   check_safe (stub_env\<lparr>CheckCollision := \<lambda>p. True\<rparr>) new_planner [[0]] \<and>
   fst (check_safe stub_env (new_planner\<lparr>plan_arm := ''right_arm''\<rparr>) [[0], [2]])"
  using check_safe_unsafe_iff_contact
    [of stub_env "new_planner\<lparr>plan_arm := ''right_arm''\<rparr>" "[[0], [2]]" "[[0], [2]]" "[1]" "[[3]]"]
    check_safe_unsafe_iff_contact
    [of "stub_env\<lparr>CheckCollision := \<lambda>p. True\<rparr>" new_planner "[]" "[]" "[0]" "[[2]]"]
  by (simp add: stub_contact)

text \<open>
  Claim C9. After \<open>__check_safe\<close> on a trajectory with at least one sample, the planning
  arm stands at the last sample that was tried: the final sample when the verdict is safe,
  the first sample in contact when it is unsafe. The joint values from before the call are
  not put back.
\<close>

theorem check_safe_leaves_last_sampled_pose:
  assumes "tr \<noteq> []"
  shows "fst (check_safe env s tr) = (find (contact_at env s) tr = None) \<and>
         snd (check_safe env s tr) =
           move_plan_arm s (case find (contact_at env s) tr of None \<Rightarrow> last tr | Some t \<Rightarrow> t) \<and>
         robot (snd (check_safe env s tr)) (plan_arm s) =
           (case find (contact_at env s) tr of None \<Rightarrow> last tr | Some t \<Rightarrow> t)"
proof (cases "find (contact_at env s) tr")
  case None
  then have "\<forall>x\<in>set tr. \<not> contact_at env s x" by (simp add: find_None_iff)
  with assms None show ?thesis by (simp add: check_safe_passes)
next
  case (Some t)
  then obtain i where i: "i < length tr" "contact_at env s (tr ! i)" "t = tr ! i"
    "\<forall>j<i. \<not> contact_at env s (tr ! j)"
    by (auto simp: find_Some_iff)
  let ?xs = "take i tr" and ?ys = "drop (Suc i) tr"
  have tr: "tr = ?xs @ t # ?ys" using i by (simp add: id_take_nth_drop)
  have "\<forall>x\<in>set ?xs. \<not> contact_at env s x"
    using i by (auto simp: in_set_conv_nth)
  then have "check_safe env s (?xs @ t # ?ys) = (False, move_plan_arm s t)"
    using i by (intro check_safe_stops) simp_all
  with tr Some show ?thesis by simp
qed

theorem check_safe_leaves_last_sampled_pose_witness:
  "[[0], [2], [1], [3]] \<noteq> [] \<and>
   robot (snd (check_safe stub_env (new_planner\<lparr>plan_arm := ''right_arm''\<rparr>) [[0], [2], [1], [3]])) ''right_arm'' = [1] \<and>
   robot (new_planner\<lparr>plan_arm := ''right_arm''\<rparr>) ''right_arm'' = []"
  using check_safe_leaves_last_sampled_pose
    [of "[[0], [2], [1], [3]]" stub_env "new_planner\<lparr>plan_arm := ''right_arm''\<rparr>"]
  by (simp add: stub_contact) (simp add: new_planner_def)

subsection \<open>The escalation loop\<close>

lemma loop_frame_refl [simp]: "loop_frame s s"
  by (simp add: loop_frame_def)

lemma loop_frame_trans: "loop_frame s s' \<Longrightarrow> loop_frame s' s'' \<Longrightarrow> loop_frame s s''"
  by (simp add: loop_frame_def)

lemma loop_frame_contact: "loop_frame s s' \<Longrightarrow> contact_at env s' t = contact_at env s t"
  by (simp add: loop_frame_def contact_at_def)

lemma loop_frame_move [simp]: "loop_frame s (move_plan_arm s t)"
  by (simp add: loop_frame_def)

lemma check_safe_frame:
  "loop_frame s (snd (check_safe env s tr)) \<and>
   attempts (snd (check_safe env s tr)) = attempts s \<and>
   store (snd (check_safe env s tr)) = store s \<and>
   request (snd (check_safe env s tr)) = request s"
proof (induction tr arbitrary: s)
  case Nil
  show ?case by simp
next
  case (Cons t ts)
  show ?case
  proof (cases "contact_at env s t")
    case True
    then show ?thesis by simp
  next
    case False
    have "loop_frame s (snd (check_safe env (move_plan_arm s t) ts))"
      using loop_frame_trans [OF loop_frame_move [of s t]] Cons [of "move_plan_arm s t"]
      by blast
    with Cons [of "move_plan_arm s t"] False show ?thesis by simp
  qed
qed

lemma set_init_info_Inr:
  assumes "set_init_info env s j = Inr s'"
  shows "loop_frame s s' \<and> robot s' = robot s \<and> attempts s' = attempts s \<and>
         init_info (request s') = init_for env s j \<and>
         (j \<noteq> 1 \<longrightarrow> store s' = store s)"
  using assms
  by (auto simp: set_init_info_def Let_def loop_frame_def init_for_def escalation_policy_def
      arm_DOF_def split: if_splits option.splits)

lemma set_init_info_Inl:
  assumes "set_init_info env s j = Inl (e, s')"
  shows "loop_frame s s' \<and> robot s' = robot s \<and> attempts s' = attempts s \<and>
         store s' = store s \<and> j = 1 \<and> e \<noteq> No_path_is_safe"
  using assms
  by (auto simp: set_init_info_def Let_def loop_frame_def
      split: if_splits option.splits)

lemma attempt_j_Inl:
  assumes "attempt_j env s j = Inl (e, s')"
  shows "loop_frame s s' \<and> robot s' = robot s \<and> attempts s' = attempts s \<and>
         store s' = store s \<and> j = 1 \<and> e \<noteq> No_path_is_safe"
  using assms set_init_info_Inl [of env s j e s']
  by (auto simp: attempt_j_def Let_def split: sum.splits prod.splits)

lemma attempt_j_Inr:
  assumes "attempt_j env s j = Inr (r, ok, s')"
  shows "\<exists>a. loop_frame s s' \<and> attempts s' = attempts s @ [a] \<and> attempt_ok env s a \<and>
           pose_at_submit a = robot s \<and> candidate a = r \<and> safe a = ok \<and>
           init_info (submitted a) = init_for env s j \<and>
           (j \<noteq> 1 \<longrightarrow> store s' = store s)"
proof -
  from assms obtain s1 where s1: "set_init_info env s j = Inr s1"
    by (auto simp: attempt_j_def split: sum.splits)
  let ?r = "OptimizeProblem env (request s1) (robot s1)"
  let ?c = "check_safe env s1 ?r"
  let ?a = "\<lparr>submitted = request s1, pose_at_submit = robot s1, candidate = ?r, safe = fst ?c\<rparr>"
  from assms s1 have r: "r = ?r" and ok: "ok = fst ?c"
    and s': "s' = (snd ?c)\<lparr>attempts := attempts (snd ?c) @ [?a]\<rparr>"
    by (auto simp: attempt_j_def Let_def split: prod.splits)
  note i = set_init_info_Inr [OF s1]
  note c = check_safe_frame [of s1 env ?r]
  have f1: "loop_frame s (snd ?c)" using i c by (blast intro: loop_frame_trans)
  have "loop_frame s s'" using f1 by (simp add: s' loop_frame_def)
  moreover have "attempts s' = attempts s @ [?a]" using i c by (simp add: s')
  moreover have "attempt_ok env s ?a"
    using i loop_frame_contact [of s s1 env]
    by (simp add: attempt_ok_def check_safe_verdict loop_frame_def)
  moreover have "j \<noteq> 1 \<longrightarrow> store s' = store s" using i c by (simp add: s')
  moreover have "pose_at_submit ?a = robot s" "candidate ?a = r" "safe ?a = ok"
    "init_info (submitted ?a) = init_for env s j"
    using i by (simp_all add: r ok)
  ultimately show ?thesis by blast
qed

lemma attempt_ok_frame: "loop_frame s s' \<Longrightarrow> attempt_ok env s' a \<Longrightarrow> attempt_ok env s a"
  using loop_frame_contact [of s s' env]
  by (simp add: attempt_ok_def loop_frame_def)

lemma escalation_policy_frame:
  "loop_frame s s' \<Longrightarrow> store s' = store s \<Longrightarrow> escalation_policy env s' = escalation_policy env s"
  by (simp add: escalation_policy_def loop_frame_def arm_DOF_def)

lemma init_for_simps:
  "init_for env s 0 = Some (escalation_policy env s ! 0)"
  "init_for env s (Suc 0) = Some (escalation_policy env s ! 1)"
  "init_for env s 2 = Some Stationary"
  by (simp_all add: init_for_def escalation_policy_def)

lemma attempt_j_0_2_no_error: "j \<noteq> 1 \<Longrightarrow> attempt_j env s j \<noteq> Inl (e, x)"
  using attempt_j_Inl [of env s j e x] by auto

lemma for_j_attempts:
  assumes "for_j env s [0, 1, 2] None = out"
  shows "\<exists>new s'. s' = (case out of Inl (e, x) \<Rightarrow> x | Inr (r, x) \<Rightarrow> x) \<and>
           loop_frame s s' \<and>
           attempts s' = attempts s @ new \<and> new \<noteq> [] \<and>
           pose_at_submit (hd new) = robot s \<and>
           prefix (map (init_info \<circ> submitted) new) (map Some (escalation_policy env s)) \<and>
           (\<forall>a\<in>set new. attempt_ok env s a) \<and>
           (\<forall>i. Suc i < length new \<longrightarrow> \<not> safe (new ! i)) \<and>
           (case out of
              Inr (r, x) \<Rightarrow> safe (last new) \<and> r = Some (candidate (last new))
            | Inl (e, x) \<Rightarrow> \<not> safe (last new) \<and> (e = No_path_is_safe) = (length new = 3))"
proof -
  let ?P = "escalation_policy env s"
  have P: "map Some ?P = [Some (?P ! 0), Some (?P ! 1), Some Stationary]"
    by (simp add: escalation_policy_def)
  obtain r0 ok0 s1 where A0: "attempt_j env s 0 = Inr (r0, ok0, s1)"
    using attempt_j_0_2_no_error [of 0 env s]
    by (cases "attempt_j env s 0") auto
  from attempt_j_Inr [OF A0] obtain a0 where
    f0: "loop_frame s s1" and st0: "store s1 = store s" and
    a0: "attempts s1 = attempts s @ [a0]" and k0: "attempt_ok env s a0" and
    p0: "pose_at_submit a0 = robot s" and c0: "candidate a0 = r0" and v0: "safe a0 = ok0" and
    i0: "init_info (submitted a0) = Some (?P ! 0)"
    by (auto simp: init_for_simps)
  show ?thesis
  proof (cases ok0)
    case True
    with A0 assms have "out = Inr (Some r0, s1)" by simp
    with True f0 a0 k0 p0 c0 v0 i0 show ?thesis
      by (intro exI [of _ "[a0]"]) (simp add: P)
  next
    case n0: False
    have pol1: "escalation_policy env s1 = ?P" using f0 st0 by (rule escalation_policy_frame)
    show ?thesis
    proof (cases "attempt_j env s1 1")
      case (Inl ex)
      obtain e x where ex: "ex = (e, x)" by (cases ex)
      from attempt_j_Inl [of env s1 1 e x] Inl ex
      have ax: "attempts x = attempts s1" and ne: "e \<noteq> No_path_is_safe"
        and fx: "loop_frame s1 x" by simp_all
      have f0x: "loop_frame s x" using f0 fx by (rule loop_frame_trans)
      from A0 n0 Inl ex assms have "out = Inl (e, x)" by simp
      with n0 f0x a0 k0 p0 c0 v0 i0 ax ne show ?thesis
        by (intro exI [of _ "[a0]"]) (simp add: P)
    next
      case (Inr t1)
      obtain r1 ok1 s2 where A1: "attempt_j env s1 1 = Inr (r1, ok1, s2)"
        using Inr by (cases t1) auto
      from attempt_j_Inr [OF A1] obtain a1 where
        f1: "loop_frame s1 s2" and
        a1: "attempts s2 = attempts s1 @ [a1]" and k1': "attempt_ok env s1 a1" and
        c1: "candidate a1 = r1" and v1: "safe a1 = ok1" and
        i1: "init_info (submitted a1) = Some (?P ! 1)"
        by (auto simp: init_for_simps pol1)
      have k1: "attempt_ok env s a1" using f0 k1' by (rule attempt_ok_frame)
      have f02: "loop_frame s s2" using f0 f1 by (rule loop_frame_trans)
      show ?thesis
      proof (cases ok1)
        case True
        with A0 n0 A1 assms have "out = Inr (Some r1, s2)" by simp
        with True n0 f02 a0 a1 k0 k1 p0 c0 c1 v0 v1 i0 i1 show ?thesis
          by (intro exI [of _ "[a0, a1]"]) (simp add: P)
      next
        case n1: False
        obtain r2 ok2 s3 where A2: "attempt_j env s2 2 = Inr (r2, ok2, s3)"
          using attempt_j_0_2_no_error [of 2 env s2]
          by (cases "attempt_j env s2 2") auto
        from attempt_j_Inr [OF A2] obtain a2 where
          f2: "loop_frame s2 s3" and
          a2: "attempts s3 = attempts s2 @ [a2]" and k2': "attempt_ok env s2 a2" and
          c2: "candidate a2 = r2" and v2: "safe a2 = ok2" and
          i2: "init_info (submitted a2) = Some Stationary"
          by (auto simp: init_for_simps)
        have k2: "attempt_ok env s a2" using f02 k2' by (rule attempt_ok_frame)
        have f03: "loop_frame s s3" using f02 f2 by (rule loop_frame_trans)
        have new: "attempts s3 = attempts s @ [a0, a1, a2]" by (simp add: a0 a1 a2)
        have nth: "\<forall>i. Suc i < length [a0, a1, a2] \<longrightarrow> \<not> safe ([a0, a1, a2] ! i)"
          using n0 n1 v0 v1 by (auto simp: nth_Cons split: nat.splits)
        show ?thesis
        proof (cases ok2)
          case True
          with A0 n0 A1 n1 A2 assms have "out = Inr (Some r2, s3)" by simp
          with True f03 new nth k0 k1 k2 p0 c2 v2 i0 i1 i2 show ?thesis
            by (intro exI [of _ "[a0, a1, a2]"]) (simp add: P)
        next
          case False
          with A0 n0 A1 n1 A2 assms have "out = Inl (No_path_is_safe, s3)" by simp
          with False f03 new nth k0 k1 k2 p0 c2 v2 i0 i1 i2 show ?thesis
            by (intro exI [of _ "[a0, a1, a2]"]) (simp add: P)
        qed
      qed
    qed
  qed
qed

subsection \<open>One segment\<close>

lemma set_request_fields [simp]:
  "plan_arm (set_request s m t n) = m"
  "target (set_request s m t n) = t"
  "robot (set_request s m t n) = robot s"
  "store (set_request s m t n) = store s"
  "left_arm_DOF (set_request s m t n) = left_arm_DOF s"
  "right_arm_DOF (set_request s m t n) = right_arm_DOF s"
  "traj (set_request s m t n) = traj s"
  "attempts (set_request s m t n) = attempts s"
  by (simp_all add: set_request_def)

lemma step_count_Finite:
  assumes "\<bar>x / 0.5\<bar> \<le> DBL_MAX"
  shows "step_count (Finite x) = Inr (max \<lceil>x / 0.5\<rceil> 3)"
  using assms
  by (simp add: step_count_def div_step_dis_ratio_def math_ceil_def py_int_def step_dis_ratio_def)

lemma step_count_Inr:
  assumes "step_count dis = Inr n"
  shows "\<exists>x. dis = Finite x \<and> \<bar>x / 0.5\<bar> \<le> DBL_MAX \<and> n = max \<lceil>x / 0.5\<rceil> 3"
proof (cases dis)
  case (Finite x)
  show ?thesis
  proof (cases "DBL_MAX < \<bar>x / 0.5\<bar>")
    case True
    with assms Finite show ?thesis
      by (simp add: step_count_def div_step_dis_ratio_def math_ceil_def py_int_def
          step_dis_ratio_def split: if_splits)
  next
    case False
    then have le: "\<bar>x / 0.5\<bar> \<le> DBL_MAX" by simp
    with assms Finite show ?thesis by (simp add: step_count_Finite)
  qed
qed (use assms in \<open>simp_all add: step_count_def div_step_dis_ratio_def math_ceil_def py_int_def\<close>)

lemma DBL_MAX_ge: "1024 \<le> DBL_MAX"
proof -
  have "(1::real) \<le> 2 - 1 / 2 ^ 52" by simp
  moreover have "(2::real) ^ 10 \<le> 2 ^ 1023" by (rule power_increasing) simp_all
  ultimately have "1 * (2::real) ^ 10 \<le> (2 - 1 / 2 ^ 52) * 2 ^ 1023"
    by (intro mult_mono) simp_all
  then show ?thesis by (simp add: DBL_MAX_def)
qed

lemma step_count_small:
  "0 \<le> y \<Longrightarrow> y \<le> 1.5 \<Longrightarrow> step_count (Finite y) = Inr 3"
  "1.5 < y \<Longrightarrow> y \<le> 2 \<Longrightarrow> step_count (Finite y) = Inr 4"
proof -
  assume "0 \<le> y" "y \<le> 1.5"
  then have "\<bar>y / 0.5\<bar> \<le> DBL_MAX" "\<lceil>y / 0.5\<rceil> \<le> 3"
    using DBL_MAX_ge by (simp_all add: ceiling_le_iff)
  then show "step_count (Finite y) = Inr 3" by (simp add: step_count_Finite)
next
  assume "1.5 < y" "y \<le> 2"
  then have "\<bar>y / 0.5\<bar> \<le> DBL_MAX" "\<lceil>y / 0.5\<rceil> = 4"
    using DBL_MAX_ge by (simp_all add: ceiling_eq_iff)
  then show "step_count (Finite y) = Inr 4" by (simp add: step_count_Finite)
qed

lemma prepare_Inr:
  assumes "prepare env s m tr i = Inr s2"
  shows "Suc i < length tr \<and>
         (\<exists>d n. np_subtract env (get_endEffector_fromDOF env (tr ! Suc i))
                 (get_endEffector_fromDOF env (tr ! i)) = Some d \<and>
              step_count (np_linalg_norm env d) = Inr n \<and>
              s2 = move_plan_arm (set_request s m (tr ! Suc i) n) (tr ! i))"
  using assms
  by (auto simp: prepare_def Let_def split: if_splits option.splits sum.splits)

text \<open>
  Line 160 raises on a displacement that is infinite, a NaN, or finite with an infinite
  double.
\<close>

lemma prepare_raises:
  assumes "Suc i < length tr"
      and "np_subtract env (get_endEffector_fromDOF env (tr ! Suc i))
             (get_endEffector_fromDOF env (tr ! i)) = Some d"
  shows "np_linalg_norm env d = PInf \<Longrightarrow> prepare env s m tr i = Inl (OverflowError, s)"
    and "np_linalg_norm env d = NaN \<Longrightarrow> prepare env s m tr i = Inl (ValueError, s)"
    and "np_linalg_norm env d = Finite x \<Longrightarrow> DBL_MAX < \<bar>x / 0.5\<bar> \<Longrightarrow>
           prepare env s m tr i = Inl (OverflowError, s)"
  using assms
  by (simp_all add: prepare_def step_count_def div_step_dis_ratio_def math_ceil_def py_int_def
      step_dis_ratio_def)

lemma prepare_Inl:
  assumes "prepare env s m tr i = Inl (e, x)"
  shows "x = s \<and> e \<noteq> No_path_is_safe"
  using assms
  by (auto simp: prepare_def step_count_def py_int_def Let_def
      split: if_splits option.splits sum.splits float64.splits)

lemma final_simps [simp]: "final (Inl (e, x)) = x" "final (Inr x) = x"
  by (simp_all add: final_def)

lemma refine_segment_attempts:
  assumes "prepare env s m tr i = Inr s2"
  shows "\<exists>new. attempts (final (refine_segment env s m tr i)) = attempts s @ new \<and>
           new \<noteq> [] \<and>
           loop_frame s2 (final (refine_segment env s m tr i)\<lparr>traj := traj s\<rparr>) \<and>
           pose_at_submit (hd new) = robot s2 \<and>
           prefix (map (init_info \<circ> submitted) new) (map Some (escalation_policy env s2)) \<and>
           (\<forall>a\<in>set new. attempt_ok env s2 a) \<and>
           (\<forall>k. Suc k < length new \<longrightarrow> \<not> safe (new ! k)) \<and>
           (case refine_segment env s m tr i of
              Inr s' \<Rightarrow> safe (last new) \<and> traj s' = traj s @ candidate (last new)
            | Inl (e, s') \<Rightarrow> \<not> safe (last new) \<and> traj s' = traj s \<and>
                (e = No_path_is_safe) = (length new = 3))"
proof -
  from prepare_Inr [OF assms] have s2: "attempts s2 = attempts s" "traj s2 = traj s"
    by auto
  obtain out where out: "for_j env s2 [0, 1, 2] None = out" by simp
  from for_j_attempts [OF out] obtain new where
    n: "loop_frame s2 (case out of Inl (e, x) \<Rightarrow> x | Inr (r, x) \<Rightarrow> x)"
       "attempts (case out of Inl (e, x) \<Rightarrow> x | Inr (r, x) \<Rightarrow> x) = attempts s2 @ new"
       "new \<noteq> []" "pose_at_submit (hd new) = robot s2"
       "prefix (map (init_info \<circ> submitted) new) (map Some (escalation_policy env s2))"
       "\<forall>a\<in>set new. attempt_ok env s2 a"
       "\<forall>k. Suc k < length new \<longrightarrow> \<not> safe (new ! k)"
       "case out of
              Inr (r, x) \<Rightarrow> safe (last new) \<and> r = Some (candidate (last new))
            | Inl (e, x) \<Rightarrow> \<not> safe (last new) \<and> (e = No_path_is_safe) = (length new = 3)"
    by blast
  show ?thesis
  proof (cases out)
    case (Inl ex)
    obtain e x where ex: "ex = (e, x)" by (cases ex)
    have r: "refine_segment env s m tr i = Inl (e, x)"
      using assms out Inl ex by (simp add: refine_segment_def append_result_def)
    have "traj x = traj s" using n(1) Inl ex s2 by (simp add: loop_frame_def)
    moreover have "loop_frame s2 (x\<lparr>traj := traj s\<rparr>)"
      using n(1) Inl ex s2 by (simp add: loop_frame_def)
    ultimately show ?thesis using n Inl ex s2
      by (intro exI [of _ new]) (simp add: r)
  next
    case (Inr rx)
    obtain r x where rx: "rx = (r, x)" by (cases rx)
    from n(8) Inr rx have rr: "r = Some (candidate (last new))" by simp
    have ref: "refine_segment env s m tr i = Inr (x\<lparr>traj := traj x @ candidate (last new)\<rparr>)"
      using assms out Inr rx rr by (simp add: refine_segment_def append_result_def)
    have "traj x = traj s" using n(1) Inr rx s2 by (simp add: loop_frame_def)
    moreover have "loop_frame s2 (x\<lparr>traj := traj s\<rparr>)"
      using n(1) Inr rx s2 by (simp add: loop_frame_def)
    ultimately show ?thesis using n Inr rx s2
      by (intro exI [of _ new]) (simp add: ref)
  qed
qed

lemma prepare_frame:
  assumes "prepare env s m tr i = Inr s2"
  shows "escalation_policy env s2 =
           [Straight_line (tr ! Suc i),
            Straight_line (pulled_back (GetDOFLimits_lower_last env) (store s (the (arm_DOF s m)))),
            Stationary]"
    and "contact_at env s2 t = CheckCollision env (SetDOFValues (robot s) t m)"
    and "attempts s2 = attempts s" and "traj s2 = traj s" and "plan_arm s2 = m"
    and "robot s2 = SetDOFValues (robot s) (tr ! i) m"
  using prepare_Inr [OF assms]
  by (auto simp: escalation_policy_def contact_at_def arm_DOF_def)

text \<open>
  Claim C1. For a segment whose preparation (lines 156 to 162) succeeds, the attempts made
  are an initial part of the fixed list: straight line to the segment's end waypoint,
  straight line to the arm's stored joint values with the last joint pulled back, no
  motion. So the order is fixed and no strategy is tried twice. Every attempt but the last
  was judged unsafe, so nothing is tried after a candidate judged safe; the last attempt is
  safe exactly when the segment is accepted.
\<close>

theorem escalation_order:
  assumes "prepare env s m tr i = Inr s2"
  shows "\<exists>new. attempts (final (refine_segment env s m tr i)) = attempts s @ new \<and>
           new \<noteq> [] \<and>
           prefix (map (init_info \<circ> submitted) new)
             [Some (Straight_line (tr ! Suc i)),
              Some (Straight_line
                (pulled_back (GetDOFLimits_lower_last env) (store s (the (arm_DOF s m))))),
              Some Stationary] \<and>
           (\<forall>a\<in>set new.
              candidate a = OptimizeProblem env (submitted a) (pose_at_submit a) \<and>
              safe a = (\<forall>t\<in>set (candidate a). \<not> CheckCollision env (SetDOFValues (robot s) t m))) \<and>
           (\<forall>k. Suc k < length new \<longrightarrow> \<not> safe (new ! k)) \<and>
           safe (last new) = (\<not> isl (refine_segment env s m tr i))"
proof -
  from refine_segment_attempts [OF assms] obtain new where
    n: "attempts (final (refine_segment env s m tr i)) = attempts s @ new" "new \<noteq> []"
       "prefix (map (init_info \<circ> submitted) new) (map Some (escalation_policy env s2))"
       "\<forall>a\<in>set new. attempt_ok env s2 a"
       "\<forall>k. Suc k < length new \<longrightarrow> \<not> safe (new ! k)"
       "case refine_segment env s m tr i of
              Inr s' \<Rightarrow> safe (last new) \<and> traj s' = traj s @ candidate (last new)
            | Inl (e, s') \<Rightarrow> \<not> safe (last new) \<and> traj s' = traj s \<and>
                (e = No_path_is_safe) = (length new = 3)"
    by blast
  have "safe (last new) = (\<not> isl (refine_segment env s m tr i))"
    using n(6) by (cases "refine_segment env s m tr i") auto
  moreover have "\<forall>a\<in>set new.
              candidate a = OptimizeProblem env (submitted a) (pose_at_submit a) \<and>
              safe a = (\<forall>t\<in>set (candidate a). \<not> CheckCollision env (SetDOFValues (robot s) t m))"
    using n(4) by (simp add: attempt_ok_def prepare_frame [OF assms])
  ultimately show ?thesis
    using n(1,2,3,5) by (intro exI [of _ new]) (simp add: prepare_frame [OF assms])
qed

lemma armed_planner_eq:
  "armed_planner = new_planner\<lparr>right_arm_DOF := Some 1, robot := SetDOFValues (\<lambda>arm. []) [0] ''right_arm''\<rparr>"
  by (simp add: armed_planner_def set_manip_def new_planner_def)

lemma stub_prepare:
  "prepare stub_env armed_planner ''right_arm'' [[0], [2], [1]] 1 =
     Inr (move_plan_arm (set_request armed_planner ''right_arm'' [1] 3) [2])"
  using DBL_MAX_ge by (simp add: prepare_def stub_env_def step_count_Finite)

theorem escalation_order_witness:
  "prepare stub_env armed_planner ''right_arm'' [[0], [2], [1]] 1 =
     Inr (move_plan_arm (set_request armed_planner ''right_arm'' [1] 3) [2]) \<and>
   (\<exists>new. attempts (final (refine_segment stub_env armed_planner ''right_arm'' [[0], [2], [1]] 1)) =
       attempts armed_planner @ new \<and>
     prefix (map (init_info \<circ> submitted) new)
       [Some (Straight_line [1]), Some (Straight_line [0]), Some Stationary])"
proof -
  have pb: "pulled_back (GetDOFLimits_lower_last stub_env)
       (store armed_planner (the (arm_DOF armed_planner ''right_arm''))) = [0]"
    by (simp add: pulled_back_def stub_env_def armed_planner_eq new_planner_def arm_DOF_def)
  show ?thesis
    using escalation_order [OF stub_prepare] stub_prepare by (auto simp: pb)
qed

lemma stub_contact_armed:
  "contact_at stub_env (move_plan_arm (set_request armed_planner ''right_arm'' tg n) w) t = (t = [1])"
  "contact_at stub_env (set_request armed_planner ''right_arm'' tg n) t = (t = [1])"
  by (simp_all add: contact_at_def stub_env_def SetDOFValues_def)

lemma refine_segment_final_attempts:
  assumes "prepare env s m tr i = Inr s2"
  shows "attempts (final (refine_segment env s m tr i)) =
           attempts (case for_j env s2 [0, 1, 2] None of Inl (e, x) \<Rightarrow> x | Inr (r, x) \<Rightarrow> x)"
    and "store (final (refine_segment env s m tr i)) =
           store (case for_j env s2 [0, 1, 2] None of Inl (e, x) \<Rightarrow> x | Inr (r, x) \<Rightarrow> x)"
  using assms
  by (auto simp: refine_segment_def append_result_def split: sum.splits option.splits prod.splits)

lemma stub_prepare_primed:
  "prepare stub_env armed_planner ''right_arm'' [[0], [2], [1]] 1 = Inr primed"
  unfolding primed_def by (rule stub_prepare)

lemma stub_for_j:
  "map (\<lambda>a. (init_info (submitted a), pose_at_submit a ''right_arm'', candidate a, safe a))
     (attempts (case for_j stub_env primed [0, 1, 2] None of Inl (e, x) \<Rightarrow> x | Inr (r, x) \<Rightarrow> x)) =
   [(Some (Straight_line [1]), [2], [[2], [1]], False),
    (Some (Straight_line [0]), [1], [[1], [0]], False),
    (Some Stationary, [1], [[1]], False)]"
  by code_simp

text \<open>
  The first attempt of a segment is submitted with the planning arm at the segment's start
  waypoint; the code puts it there once, before the loop over \<open>j\<close>.
\<close>

lemma first_attempt_at_start_waypoint:
  assumes "prepare env s m tr i = Inr s2"
  shows "\<exists>new. attempts (final (refine_segment env s m tr i)) = attempts s @ new \<and>
           new \<noteq> [] \<and> pose_at_submit (hd new) m = tr ! i"
proof -
  from refine_segment_attempts [OF assms] obtain new where
    "attempts (final (refine_segment env s m tr i)) = attempts s @ new" "new \<noteq> []"
    "pose_at_submit (hd new) = robot s2"
    by blast
  then show ?thesis
    by (intro exI [of _ new]) (simp add: prepare_frame [OF assms])
qed

text \<open>
  Claim C5. On the test doubles, the segment from \<open>[2]\<close> to \<open>[1]\<close>: the first attempt is
  submitted with the arm at the start waypoint \<open>[2]\<close>; its candidate touches at \<open>[1]\<close>,
  where \<open>__check_safe\<close> leaves the arm, and the second and third attempts are submitted
  with the arm at \<open>[1]\<close>. Line 162 is not run again before a retry.
\<close>

theorem retry_submitted_at_contact_pose:
  "[[0], [2], [1]] ! 1 = [2::real] \<and>
   map (\<lambda>a. (init_info (submitted a), pose_at_submit a ''right_arm'', candidate a, safe a))
     (attempts (final (refine_segment stub_env armed_planner ''right_arm'' [[0], [2], [1]] 1))) =
   [(Some (Straight_line [1]), [2], [[2], [1]], False),
    (Some (Straight_line [0]), [1], [[1], [0]], False),
    (Some Stationary, [1], [[1]], False)]"
proof (intro conjI)
  show "[[0], [2], [1]] ! 1 = [2::real]" by simp
  show "map (\<lambda>a. (init_info (submitted a), pose_at_submit a ''right_arm'', candidate a, safe a))
     (attempts (final (refine_segment stub_env armed_planner ''right_arm'' [[0], [2], [1]] 1))) =
   [(Some (Straight_line [1]), [2], [[2], [1]], False),
    (Some (Straight_line [0]), [1], [[1], [0]], False),
    (Some Stationary, [1], [[1]], False)]"
    unfolding refine_segment_final_attempts(1) [OF stub_prepare_primed] by (rule stub_for_j)
qed

text \<open>
  Claim C2. The displacement of a segment is what numpy gives for the norm of the
  difference between the forward kinematics of the end waypoint and of the start waypoint.
  When preparation succeeds, that displacement is a finite value \<open>x\<close> whose double is finite,
  and the step count written into the request, and carried by every attempt of the
  segment, is \<open>max (ceiling (x / 0.5)) 3\<close>, at least 3. Conversely, for a waypoint pair of
  the path with such a displacement, preparation succeeds with that step count. A
  displacement of 0.3, or any from 0 to 1.5, gives 3 steps; 1.7, or any above 1.5 up to
  2, gives 4.
\<close>

theorem segment_step_count:
  "(prepare env s m tr i = Inr s2 \<longrightarrow>
      (\<exists>d x new.
         np_subtract env (get_endEffector_fromDOF env (tr ! Suc i))
           (get_endEffector_fromDOF env (tr ! i)) = Some d \<and>
         np_linalg_norm env d = Finite x \<and> \<bar>x / 0.5\<bar> \<le> DBL_MAX \<and>
         n_steps (basic_info (request s2)) = max \<lceil>x / 0.5\<rceil> 3 \<and>
         3 \<le> n_steps (basic_info (request s2)) \<and>
         attempts (final (refine_segment env s m tr i)) = attempts s @ new \<and>
         (\<forall>a\<in>set new. n_steps (basic_info (submitted a)) = max \<lceil>x / 0.5\<rceil> 3))) \<and>
   (Suc i < length tr \<and>
    np_subtract env (get_endEffector_fromDOF env (tr ! Suc i))
      (get_endEffector_fromDOF env (tr ! i)) = Some d' \<and>
    np_linalg_norm env d' = Finite x' \<and> \<bar>x' / 0.5\<bar> \<le> DBL_MAX \<longrightarrow>
      (\<exists>p. prepare env s m tr i = Inr p \<and>
           n_steps (basic_info (request p)) = max \<lceil>x' / 0.5\<rceil> 3)) \<and>
   (0 \<le> y \<and> y \<le> 1.5 \<longrightarrow> step_count (Finite y) = Inr 3) \<and>
   (1.5 < y \<and> y \<le> 2 \<longrightarrow> step_count (Finite y) = Inr 4) \<and>
   step_count (Finite 0.3) = Inr 3 \<and> step_count (Finite 1.7) = Inr 4"
proof (intro conjI impI)
  assume p: "prepare env s m tr i = Inr s2"
  from prepare_Inr [OF p] obtain d n where
    d: "np_subtract env (get_endEffector_fromDOF env (tr ! Suc i))
          (get_endEffector_fromDOF env (tr ! i)) = Some d"
    and n: "step_count (np_linalg_norm env d) = Inr n"
    and s2: "s2 = move_plan_arm (set_request s m (tr ! Suc i) n) (tr ! i)"
    by blast
  from step_count_Inr [OF n] obtain x where
    x: "np_linalg_norm env d = Finite x" "\<bar>x / 0.5\<bar> \<le> DBL_MAX" "n = max \<lceil>x / 0.5\<rceil> 3"
    by blast
  have k: "n_steps (basic_info (request s2)) = max \<lceil>x / 0.5\<rceil> 3"
    by (simp add: s2 set_request_def x(3))
  from refine_segment_attempts [OF p] obtain new where
    new: "attempts (final (refine_segment env s m tr i)) = attempts s @ new"
      "\<forall>a\<in>set new. attempt_ok env s2 a"
    by blast
  have "\<forall>a\<in>set new. n_steps (basic_info (submitted a)) = max \<lceil>x / 0.5\<rceil> 3"
    using new(2) k by (simp add: attempt_ok_def)
  with d x(1,2) k new(1) show "\<exists>d x new.
         np_subtract env (get_endEffector_fromDOF env (tr ! Suc i))
           (get_endEffector_fromDOF env (tr ! i)) = Some d \<and>
         np_linalg_norm env d = Finite x \<and> \<bar>x / 0.5\<bar> \<le> DBL_MAX \<and>
         n_steps (basic_info (request s2)) = max \<lceil>x / 0.5\<rceil> 3 \<and>
         3 \<le> n_steps (basic_info (request s2)) \<and>
         attempts (final (refine_segment env s m tr i)) = attempts s @ new \<and>
         (\<forall>a\<in>set new. n_steps (basic_info (submitted a)) = max \<lceil>x / 0.5\<rceil> 3)"
    by (intro exI [of _ d] exI [of _ x] exI [of _ new]) simp
next
  assume h: "Suc i < length tr \<and>
    np_subtract env (get_endEffector_fromDOF env (tr ! Suc i))
      (get_endEffector_fromDOF env (tr ! i)) = Some d' \<and>
    np_linalg_norm env d' = Finite x' \<and> \<bar>x' / 0.5\<bar> \<le> DBL_MAX"
  then have "step_count (np_linalg_norm env d') = Inr (max \<lceil>x' / 0.5\<rceil> 3)"
    by (simp add: step_count_Finite)
  with h show "\<exists>p. prepare env s m tr i = Inr p \<and>
           n_steps (basic_info (request p)) = max \<lceil>x' / 0.5\<rceil> 3"
    by (simp add: prepare_def Let_def set_request_def)
next
  assume "0 \<le> y \<and> y \<le> 1.5"
  then show "step_count (Finite y) = Inr 3" by (simp add: step_count_small)
next
  assume "1.5 < y \<and> y \<le> 2"
  then show "step_count (Finite y) = Inr 4" by (simp add: step_count_small)
next
  show "step_count (Finite 0.3) = Inr 3" by (rule step_count_small) simp_all
  show "step_count (Finite 1.7) = Inr 4" by (rule step_count_small) simp_all
qed

lemma stub_prepare_first:
  "prepare stub_env armed_planner ''right_arm'' [[0], [2], [1]] 0 =
     Inr (move_plan_arm (set_request armed_planner ''right_arm'' [2] 4) [0])"
  using DBL_MAX_ge by (simp add: prepare_def stub_env_def step_count_Finite)

theorem segment_step_count_witness:
  "prepare stub_env armed_planner ''right_arm'' [[0], [2], [1]] 0 =
     Inr (move_plan_arm (set_request armed_planner ''right_arm'' [2] 4) [0]) \<and>
   Suc 0 < length [[0::real], [2], [1]] \<and>
   np_subtract stub_env (get_endEffector_fromDOF stub_env ([[0], [2], [1]] ! Suc 0))
     (get_endEffector_fromDOF stub_env ([[0], [2], [1]] ! 0)) = Some [Finite 2] \<and>
   np_linalg_norm stub_env [Finite 2] = Finite 2 \<and>
   \<bar>2 / 0.5\<bar> \<le> DBL_MAX \<and>
   n_steps (basic_info (request
     (move_plan_arm (set_request armed_planner ''right_arm'' [2] 4) [0]))) = 4 \<and>
   (\<exists>new. attempts (final (refine_segment stub_env armed_planner ''right_arm'' [[0], [2], [1]] 0)) =
        attempts armed_planner @ new \<and>
      (\<forall>a\<in>set new. n_steps (basic_info (submitted a)) = 4)) \<and>
   prepare stub_env armed_planner ''right_arm'' [[0], [2], [1]] 1 = Inr primed \<and>
   n_steps (basic_info (request primed)) = 3 \<and>
   (0::real) \<le> 0.3 \<and> (0.3::real) \<le> 1.5 \<and> step_count (Finite 0.3) = Inr 3 \<and>
   (1.5::real) < 1.7 \<and> (1.7::real) \<le> 2 \<and> step_count (Finite 1.7) = Inr 4"
proof -
  let ?tr = "[[0::real], [2], [1]]"
  let ?p = "move_plan_arm (set_request armed_planner ''right_arm'' [2] 4) [0]"
  have sub: "np_subtract stub_env (get_endEffector_fromDOF stub_env (?tr ! Suc 0))
     (get_endEffector_fromDOF stub_env (?tr ! 0)) = Some [Finite 2]"
    and nrm: "np_linalg_norm stub_env [Finite 2] = Finite 2"
    by (simp_all add: stub_env_def)
  have big: "\<bar>(2::real) / 0.5\<bar> \<le> DBL_MAX" using DBL_MAX_ge by simp
  note t0 = segment_step_count
    [of stub_env armed_planner "''right_arm''" ?tr 0 ?p "[Finite 2]" 2 "0.3"]
  note t1 = segment_step_count
    [of stub_env armed_planner "''right_arm''" ?tr 1 primed "[Finite 1]" 1 "1.7"]
  from t0 stub_prepare_first sub nrm obtain new where
    "attempts (final (refine_segment stub_env armed_planner ''right_arm'' ?tr 0)) =
        attempts armed_planner @ new"
    "\<forall>a\<in>set new. n_steps (basic_info (submitted a)) = 4"
    by auto
  then have "\<exists>new. attempts (final (refine_segment stub_env armed_planner ''right_arm'' ?tr 0)) =
        attempts armed_planner @ new \<and>
      (\<forall>a\<in>set new. n_steps (basic_info (submitted a)) = 4)"
    by blast
  moreover have "n_steps (basic_info (request ?p)) = 4" "n_steps (basic_info (request primed)) = 3"
    by (simp_all add: set_request_def primed_def)
  moreover have "step_count (Finite 0.3) = Inr 3" using t0 by simp
  moreover have "step_count (Finite 1.7) = Inr 4" using t1 by simp
  ultimately show ?thesis
    using stub_prepare_first stub_prepare_primed sub nrm big by simp
qed

text \<open>
  Claim C8. Every request submitted for an attempt of a segment is the document of
  \<open>__set_request\<close> key for key: the step count, the manipulator and \<open>start_fixed\<close>; the
  joint-velocity cost and the continuous and the discrete collision cost, each with its
  distance penalty; the joint target at the segment's end waypoint and the two \<open>cart_vel\<close>
  constraints for \<open>s0\<close> and \<open>s1\<close> from step 0 to step \<open>n_steps - 1\<close>; and one
  \<open>init_info\<close>. The builder itself leaves \<open>init_info\<close> out.
\<close>

theorem request_schema:
  assumes "prepare env s m tr i = Inr s2"
  shows "\<exists>new n. attempts (final (refine_segment env s m tr i)) = attempts s @ new \<and>
           new \<noteq> [] \<and>
           (\<forall>a\<in>set new. \<exists>ini.
              submitted a =
                \<lparr>basic_info = \<lparr>n_steps = n, manip = m, start_fixed = True\<rparr>,
                 costs =
                   [Joint_vel [100, 100, 1],
                    Collision [10000] [0.1] True,
                    Collision [10000] [0.1] False],
                 constraints =
                   [Joint (tr ! Suc i),
                    Cart_vel ''s0_vel'' 1 0 (n - 1) ''s0'',
                    Cart_vel ''s1_vel'' 1 0 (n - 1) ''s1''],
                 init_info = Some ini\<rparr>) \<and>
           s2 = move_plan_arm (set_request s m (tr ! Suc i) n) (tr ! i) \<and>
           request (set_request s m (tr ! Suc i) n) =
                \<lparr>basic_info = \<lparr>n_steps = n, manip = m, start_fixed = True\<rparr>,
                 costs =
                   [Joint_vel [100, 100, 1],
                    Collision [10000] [0.1] True,
                    Collision [10000] [0.1] False],
                 constraints =
                   [Joint (tr ! Suc i),
                    Cart_vel ''s0_vel'' 1 0 (n - 1) ''s0'',
                    Cart_vel ''s1_vel'' 1 0 (n - 1) ''s1''],
                 init_info = None\<rparr>"
proof -
  from prepare_Inr [OF assms] obtain n where
    s2: "s2 = move_plan_arm (set_request s m (tr ! Suc i) n) (tr ! i)"
    by blast
  let ?q = "\<lambda>ini. \<lparr>basic_info = \<lparr>n_steps = n, manip = m, start_fixed = True\<rparr>,
                 costs =
                   [Joint_vel [100, 100, 1],
                    Collision [10000] [0.1] True,
                    Collision [10000] [0.1] False],
                 constraints =
                   [Joint (tr ! Suc i),
                    Cart_vel ''s0_vel'' 1 0 (n - 1) ''s0'',
                    Cart_vel ''s1_vel'' 1 0 (n - 1) ''s1''],
                 init_info = ini\<rparr>"
  have q: "request s2 = ?q None" by (simp add: s2 set_request_def)
  have b: "request (set_request s m (tr ! Suc i) n) = ?q None" by (simp add: set_request_def)
  from refine_segment_attempts [OF assms] obtain new where
    new: "attempts (final (refine_segment env s m tr i)) = attempts s @ new" "new \<noteq> []"
      "\<forall>a\<in>set new. attempt_ok env s2 a"
      "prefix (map (init_info \<circ> submitted) new) (map Some (escalation_policy env s2))"
    by blast
  have "\<exists>ini. submitted a = ?q (Some ini)" if a: "a \<in> set new" for a
  proof -
    from a new(4) have "init_info (submitted a) \<in> set (map Some (escalation_policy env s2))"
      using set_mono_prefix [OF new(4)] by auto
    then obtain ini where ini: "init_info (submitted a) = Some ini" by auto
    from a new(3) have "basic_info (submitted a) = basic_info (?q None)"
      "costs (submitted a) = costs (?q None)" "constraints (submitted a) = constraints (?q None)"
      by (simp_all add: attempt_ok_def q)
    with ini have "submitted a = ?q (Some ini)" by (cases "submitted a") simp
    then show ?thesis ..
  qed
  with new(1,2) b s2 show ?thesis
    by (intro exI [of _ new] exI [of _ n]) simp
qed

theorem request_schema_witness:
  "prepare stub_env armed_planner ''right_arm'' [[0], [2], [1]] 1 = Inr primed \<and>
   (\<exists>new n. attempts (final (refine_segment stub_env armed_planner ''right_arm'' [[0], [2], [1]] 1)) =
        attempts armed_planner @ new \<and> new \<noteq> [] \<and>
      request (set_request armed_planner ''right_arm'' [1] n) =
                \<lparr>basic_info = \<lparr>n_steps = n, manip = ''right_arm'', start_fixed = True\<rparr>,
                 costs =
                   [Joint_vel [100, 100, 1],
                    Collision [10000] [0.1] True,
                    Collision [10000] [0.1] False],
                 constraints =
                   [Joint [1],
                    Cart_vel ''s0_vel'' 1 0 (n - 1) ''s0'',
                    Cart_vel ''s1_vel'' 1 0 (n - 1) ''s1''],
                 init_info = None\<rparr>)"
  using request_schema [OF stub_prepare_primed] stub_prepare_primed
  by auto

subsection \<open>Retraction\<close>

lemma pulled_back_eq:
  "v \<noteq> [] \<Longrightarrow> pulled_back L v = butlast v @ [max L (last v - 5)]"
  by (induction v rule: rev_induct) (simp_all add: pulled_back_def)

lemma arm_DOF_request [simp]:
  "arm_DOF (s\<lparr>request := q\<rparr>) nm = arm_DOF s nm"
  "arm_DOF (s\<lparr>attempts := h\<rparr>) nm = arm_DOF s nm"
  by (simp_all add: arm_DOF_def)

lemma set_init_info_1:
  assumes "arm_DOF s (plan_arm s) = Some a" and "store s a \<noteq> []"
  shows "set_init_info env s (Suc 0) =
     Inr (s\<lparr>store := (store s)(a := pulled_back (GetDOFLimits_lower_last env) (store s a)),
           request := (request s)\<lparr>init_info :=
             Some (Straight_line (pulled_back (GetDOFLimits_lower_last env) (store s a)))\<rparr>\<rparr>)"
  using assms by (simp add: set_init_info_def Let_def)

text \<open>
  Claim C6. With \<open>j = 1\<close>, an arm whose DOF attribute is set and whose list is not
  empty: the last entry of the list becomes \<open>max L (v - 5)\<close>, for \<open>L\<close> the joint-limit
  entry and \<open>v\<close> the last entry before; it is never below \<open>L\<close>, the other entries stay,
  and the list is the endpoint of the initialization.
\<close>

theorem pulled_back_clamped:
  assumes "arm_DOF s (plan_arm s) = Some a" and "store s a \<noteq> []"
  shows "\<exists>s'. set_init_info env s 1 = Inr s' \<and>
           init_info (request s') = Some (Straight_line (store s' a)) \<and>
           last (store s' a) = max (GetDOFLimits_lower_last env) (last (store s a) - 5) \<and>
           GetDOFLimits_lower_last env \<le> last (store s' a) \<and>
           butlast (store s' a) = butlast (store s a)"
  using assms by (simp add: set_init_info_1 pulled_back_eq)

lemma primed_arm: "arm_DOF primed (plan_arm primed) = Some (Suc 0)" "store primed (Suc 0) = [0]"
  by (simp_all add: primed_def armed_planner_eq new_planner_def arm_DOF_def)

theorem pulled_back_clamped_witness:
  "arm_DOF primed (plan_arm primed) = Some 1 \<and> store primed 1 \<noteq> [] \<and>
   (\<exists>s'. set_init_info (stub_env\<lparr>GetDOFLimits_lower_last := - 3\<rparr>) primed 1 = Inr s' \<and>
      init_info (request s') = Some (Straight_line (store s' 1)) \<and>
      last (store s' 1) = - 3)"
proof -
  have a: "arm_DOF primed (plan_arm primed) = Some 1" by (simp add: primed_arm)
  have ne: "store primed 1 \<noteq> []" by (simp add: primed_arm)
  show ?thesis
    using pulled_back_clamped [OF a ne, of "stub_env\<lparr>GetDOFLimits_lower_last := - 3\<rparr>"] a ne
    by (auto simp: primed_arm)
qed








subsection \<open>All segments\<close>

lemma filter_only_last:
  assumes "xs \<noteq> []" and "\<forall>k. Suc k < length xs \<longrightarrow> \<not> P (xs ! k)" and "P (last xs)"
  shows "filter P xs = [last xs]"
proof -
  have xs: "xs = butlast xs @ [last xs]" using assms(1) by simp
  have "\<forall>x\<in>set (butlast xs). \<not> P x"
  proof
    fix x assume "x \<in> set (butlast xs)"
    then obtain k where k: "k < length (butlast xs)" "butlast xs ! k = x"
      by (auto simp: in_set_conv_nth)
    then have "Suc k < length xs" by simp
    moreover have "xs ! k = x" using k by (simp add: nth_butlast)
    ultimately show "\<not> P x" using assms(2) by blast
  qed
  then have "filter P (butlast xs) = []" by (simp add: filter_empty_conv)
  then have "filter P (butlast xs @ [last xs]) = [last xs]" using assms(3) by simp
  with xs show ?thesis by simp
qed

lemma refine_segment_Inr:
  assumes "refine_segment env s m tr i = Inr s'"
  shows "\<exists>new. attempts s' = attempts s @ new \<and>
           filter safe new = [last new] \<and>
           traj s' = traj s @ candidate (last new) \<and>
           constraints (submitted (last new)) ! 0 = Joint (tr ! Suc i) \<and>
           Suc i < length tr"
proof -
  obtain s2 where p: "prepare env s m tr i = Inr s2"
    using assms by (cases "prepare env s m tr i") (auto simp: refine_segment_def)
  from refine_segment_attempts [OF p] assms obtain new where
    n: "attempts s' = attempts s @ new" "new \<noteq> []"
       "\<forall>a\<in>set new. attempt_ok env s2 a"
       "\<forall>k. Suc k < length new \<longrightarrow> \<not> safe (new ! k)"
       "safe (last new)" "traj s' = traj s @ candidate (last new)"
    by auto
  have "attempt_ok env s2 (last new)" using n(2,3) by simp
  then have "constraints (submitted (last new)) = constraints (request s2)"
    by (simp add: attempt_ok_def)
  moreover from prepare_Inr [OF p] have "constraints (request s2) ! 0 = Joint (tr ! Suc i)"
    and "Suc i < length tr"
    by (auto simp: set_request_def)
  ultimately show ?thesis
    using n filter_only_last [of new safe] by (intro exI [of _ new]) simp
qed

lemma for_i_Inr:
  assumes "for_i env s m tr is = Inr s'"
  shows "\<exists>new. attempts s' = attempts s @ new \<and>
           traj s' = traj s @ concat (map candidate (filter safe new)) \<and>
           map (\<lambda>a. constraints (submitted a) ! 0) (filter safe new) =
             map (\<lambda>i. Joint (tr ! Suc i)) is"
  using assms
proof (induction "is" arbitrary: s)
  case Nil
  then show ?case by simp
next
  case (Cons i "is")
  from Cons.prems obtain s1 where
    r: "refine_segment env s m tr i = Inr s1" and f: "for_i env s1 m tr is = Inr s'"
    by (cases "refine_segment env s m tr i") auto
  from refine_segment_Inr [OF r] obtain n1 where
    1: "attempts s1 = attempts s @ n1" "filter safe n1 = [last n1]"
       "traj s1 = traj s @ candidate (last n1)"
       "constraints (submitted (last n1)) ! 0 = Joint (tr ! Suc i)"
    by blast
  from Cons.IH [OF f] obtain n2 where
    2: "attempts s' = attempts s1 @ n2"
       "traj s' = traj s1 @ concat (map candidate (filter safe n2))"
       "map (\<lambda>a. constraints (submitted a) ! 0) (filter safe n2) =
             map (\<lambda>i. Joint (tr ! Suc i)) is"
    by blast
  show ?case
    using 1 2 by (intro exI [of _ "n1 @ n2"]) simp
qed

lemma init_traj_Inr:
  assumes "init_traj env s m jt alg = Inr (tr, s1)"
  shows "attempts s1 = attempts s \<and> store s1 = store s"
  using assms
  by (auto simp: init_traj_def Let_def split: option.splits list.splits)

text \<open>
  Claim C7. When \<open>optimize\<close> returns, \<open>self.traj\<close> is the concatenation of the candidates
  judged safe, in the order of the attempts; its length is the sum of their lengths; and
  the accepted candidates are one per waypoint pair in path order: the request of the
  \<open>k\<close>-th has the waypoint \<open>k + 1\<close> as its joint target.
\<close>

theorem assembled_trajectory_is_concatenation:
  assumes "optimize env s m jt alg = Inr s'"
  shows "\<exists>tr s1 new. init_traj env s m jt alg = Inr (tr, s1) \<and>
           attempts s' = attempts s @ new \<and>
           traj s' = concat (map candidate (filter safe new)) \<and>
           length (traj s') = sum_list (map (length \<circ> candidate) (filter safe new)) \<and>
           map (\<lambda>a. constraints (submitted a) ! 0) (filter safe new) = map Joint (tl tr)"
proof -
  from assms obtain tr s1 where
    i: "init_traj env s m jt alg = Inr (tr, s1)" and
    f: "for_i env (s1\<lparr>traj := []\<rparr>) m tr [0..<length tr - 1] = Inr s'"
    by (cases "init_traj env s m jt alg") (auto simp: optimize_def)
  from for_i_Inr [OF f] init_traj_Inr [OF i] obtain new where
    n: "attempts s' = attempts s @ new"
       "traj s' = concat (map candidate (filter safe new))"
       "map (\<lambda>a. constraints (submitted a) ! 0) (filter safe new) =
             map (\<lambda>i. Joint (tr ! Suc i)) [0..<length tr - 1]"
    by auto
  have "map (\<lambda>i. tr ! Suc i) [0..<length tr - 1] = tl tr"
    by (rule nth_equalityI) (simp_all add: nth_tl)
  then have "map Joint (map (\<lambda>i. tr ! Suc i) [0..<length tr - 1]) = map Joint (tl tr)"
    by (rule arg_cong)
  then have "map (\<lambda>i. Joint (tr ! Suc i)) [0..<length tr - 1] = map Joint (tl tr)"
    by (simp add: comp_def)
  moreover have "length (traj s') = sum_list (map (length \<circ> candidate) (filter safe new))"
    by (simp add: n(2) length_concat comp_def)
  ultimately show ?thesis using i n by auto
qed

lemma for_i_append:
  "for_i env s m tr (xs @ ys) =
     (case for_i env s m tr xs of Inl e \<Rightarrow> Inl e | Inr s1 \<Rightarrow> for_i env s1 m tr ys)"
  by (induction xs arbitrary: s) (simp_all split: sum.splits)

lemma for_j_exhausted:
  assumes "attempt_j env s2 0 = Inr (r0, False, s3)"
      and "attempt_j env s3 1 = Inr (r1, False, s4)"
      and "attempt_j env s4 2 = Inr (r2, False, s5)"
  shows "for_j env s2 [0, 1, 2] None = Inl (No_path_is_safe, s5)"
  using assms by simp

text \<open>
  Claim C4. If the segments before segment \<open>k\<close> were accepted and the three attempts for
  segment \<open>k\<close> are all judged unsafe, \<open>optimize\<close> raises \<open>No path is safe\<close>, and so does
  the script's run: \<open>simulate\<close> is not reached and nothing is played.
\<close>

theorem exhausted_segment_fails_run:
  assumes "init_traj env s m jt alg = Inr (tr, s0)"
      and "k < length tr - 1"
      and "for_i env (s0\<lparr>traj := []\<rparr>) m tr [0..<k] = Inr s1"
      and "prepare env s1 m tr k = Inr s2"
      and "attempt_j env s2 0 = Inr (r0, False, s3)"
      and "attempt_j env s3 1 = Inr (r1, False, s4)"
      and "attempt_j env s4 2 = Inr (r2, False, s5)"
  shows "optimize env s m jt alg = Inl (No_path_is_safe, s5) \<and>
         run env s m jt alg = Inl (No_path_is_safe, s5)"
proof -
  have seg: "refine_segment env s1 m tr k = Inl (No_path_is_safe, s5)"
    using assms(4) for_j_exhausted [OF assms(5,6,7)]
    by (simp add: refine_segment_def append_result_def)
  have "[0..<length tr - 1] = [0..<k] @ [k..<length tr - 1]"
    using assms(2) upt_add_eq_append [of 0 k "length tr - 1 - k"] by simp
  moreover have "[k..<length tr - 1] = k # [Suc k..<length tr - 1]"
    using assms(2) by (simp add: upt_conv_Cons)
  ultimately have "[0..<length tr - 1] = [0..<k] @ k # [Suc k..<length tr - 1]"
    by simp
  then have "for_i env (s0\<lparr>traj := []\<rparr>) m tr [0..<length tr - 1] = Inl (No_path_is_safe, s5)"
    using assms(3) seg by (simp add: for_i_append)
  then have "optimize env s m jt alg = Inl (No_path_is_safe, s5)"
    using assms(1) by (simp add: optimize_def)
  then show ?thesis by (simp add: run_def)
qed

subsection \<open>A run on the test doubles\<close>

lemma stub_prepare_gen:
  "prepare stub_env X m [[0], [2], [c]] 0 = Inr (move_plan_arm (set_request X m [2] 4) [0])"
  "prepare stub_env X m [[0], [2], [1]] (Suc 0) =
     Inr (move_plan_arm (set_request X m [1] 3) [2])"
  "prepare stub_env X m [[0], [2], [3]] (Suc 0) =
     Inr (move_plan_arm (set_request X m [3] 3) [2])"
  using DBL_MAX_ge by (simp_all add: prepare_def stub_env_def step_count_Finite)

lemma stub_init_traj:
  "init_traj stub_env armed_planner ''right_arm'' [[c]] alg =
     Inr ([[0], [2], [c]],
          armed_planner\<lparr>robot := SetDOFValues (robot armed_planner) [0] ''right_arm''\<rparr>)"
  by (simp add: init_traj_def get_manip_def stub_env_def armed_planner_eq new_planner_def)

lemma upt_2: "[0..<length [x, y, z] - 1] = [0, Suc 0]"
  by (simp add: upt_rec)

lemma stub_optimize:
  "optimize stub_env armed_planner ''right_arm'' [[3]] alg =
     (case append_result (for_j stub_env
             (move_plan_arm (set_request
                (armed_planner\<lparr>robot := SetDOFValues (robot armed_planner) [0] ''right_arm'',
                                traj := []\<rparr>)
                ''right_arm'' [2] 4) [0]) [0, 1, 2] None) of
        Inl e \<Rightarrow> Inl e
      | Inr s' \<Rightarrow>
          (case append_result (for_j stub_env
                  (move_plan_arm (set_request s' ''right_arm'' [3] 3) [2])
                  [0, 1, 2] None) of
             Inl e \<Rightarrow> Inl e
           | Inr s'' \<Rightarrow> Inr s''))"
  by (simp only: optimize_def stub_init_traj upt_2 sum.case prod.case for_i.simps
      refine_segment_def stub_prepare_gen)

lemma stub_optimize_ok:
  "\<not> isl (optimize stub_env armed_planner ''right_arm'' [[3]] ''RRTConnect'')"
  "traj (final (optimize stub_env armed_planner ''right_arm'' [[3]] ''RRTConnect'')) =
     [[0], [2], [2], [3]]"
  unfolding stub_optimize by code_simp+

lemma not_isl_final: "\<not> isl out \<Longrightarrow> out = Inr (final out)"
  by (cases out) (simp_all add: final_def)

theorem assembled_trajectory_is_concatenation_witness:
  "optimize stub_env armed_planner ''right_arm'' [[3]] ''RRTConnect'' =
     Inr (final (optimize stub_env armed_planner ''right_arm'' [[3]] ''RRTConnect'')) \<and>
   traj (final (optimize stub_env armed_planner ''right_arm'' [[3]] ''RRTConnect'')) =
     [[0], [2], [2], [3]] \<and>
   (\<exists>new. attempts (final (optimize stub_env armed_planner ''right_arm'' [[3]] ''RRTConnect'')) =
        attempts armed_planner @ new \<and>
      concat (map candidate (filter safe new)) = [[0], [2], [2], [3]] \<and>
      map (\<lambda>a. constraints (submitted a) ! 0) (filter safe new) = [Joint [2], Joint [3]])"
proof -
  have h: "optimize stub_env armed_planner ''right_arm'' [[3]] ''RRTConnect'' =
     Inr (final (optimize stub_env armed_planner ''right_arm'' [[3]] ''RRTConnect''))"
    using stub_optimize_ok(1) by (rule not_isl_final)
  show ?thesis
    using assembled_trajectory_is_concatenation [OF h] h stub_optimize_ok(2)
    by (auto simp: stub_init_traj)
qed

lemma Inr_unsafe:
  "\<not> isl A \<Longrightarrow> \<not> fst (snd (projr A)) \<Longrightarrow>
   A = Inr (fst (projr A), False, snd (snd (projr A)))"
  by (cases A) auto

theorem exhausted_segment_fails_run_witness:
  "init_traj stub_env armed_planner ''right_arm'' [[1]] ''RRTConnect'' =
     Inr ([[0], [2], [1]],
          armed_planner\<lparr>robot := SetDOFValues (robot armed_planner) [0] ''right_arm''\<rparr>) \<and>
   isl (optimize stub_env armed_planner ''right_arm'' [[1]] ''RRTConnect'') \<and>
   fst (projl (optimize stub_env armed_planner ''right_arm'' [[1]] ''RRTConnect'')) =
     No_path_is_safe \<and>
   run stub_env armed_planner ''right_arm'' [[1]] ''RRTConnect'' =
     optimize stub_env armed_planner ''right_arm'' [[1]] ''RRTConnect''"
proof -
  define tr :: "waypoint list" where "tr = [[0], [2], [1]]"
  define s0 where
    "s0 = armed_planner\<lparr>robot := SetDOFValues (robot armed_planner) [0] ''right_arm''\<rparr>"
  define p0 where
    "p0 = move_plan_arm (set_request (s0\<lparr>traj := []\<rparr>) ''right_arm'' [2] 4) [0]"
  define s1 where "s1 = final (append_result (for_j stub_env p0 [0, 1, 2] None))"
  define s2 where
    "s2 = move_plan_arm (set_request s1 ''right_arm'' [1] 3) [2]"
  define s3 where "s3 = snd (snd (projr (attempt_j stub_env s2 0)))"
  define s4 where "s4 = snd (snd (projr (attempt_j stub_env s3 1)))"
  define s5 where "s5 = snd (snd (projr (attempt_j stub_env s4 2)))"
  have h1: "init_traj stub_env armed_planner ''right_arm'' [[1]] ''RRTConnect'' = Inr (tr, s0)"
    unfolding tr_def s0_def by (rule stub_init_traj)
  have h2: "1 < length tr - 1" by (simp add: tr_def)
  have ok0: "\<not> isl (append_result (for_j stub_env p0 [0, 1, 2] None))"
    unfolding p0_def s0_def by code_simp
  have "refine_segment stub_env (s0\<lparr>traj := []\<rparr>) ''right_arm'' tr 0 =
      append_result (for_j stub_env p0 [0, 1, 2] None)"
    unfolding tr_def p0_def by (simp only: refine_segment_def stub_prepare_gen sum.case)
  also have "\<dots> = Inr s1"
    unfolding s1_def using ok0 by (rule not_isl_final)
  finally have "for_i stub_env (s0\<lparr>traj := []\<rparr>) ''right_arm'' tr [0] = Inr s1"
    by (simp only: for_i.simps sum.case)
  then have h3: "for_i stub_env (s0\<lparr>traj := []\<rparr>) ''right_arm'' tr [0..<1] = Inr s1"
    by simp
  have h4: "prepare stub_env s1 ''right_arm'' tr 1 = Inr s2"
    by (simp add: tr_def s2_def stub_prepare_gen)
  have "\<not> isl (attempt_j stub_env s2 0)" "\<not> fst (snd (projr (attempt_j stub_env s2 0)))"
    unfolding s2_def s1_def p0_def s0_def by code_simp+
  then have h5: "attempt_j stub_env s2 0 = Inr (fst (projr (attempt_j stub_env s2 0)), False, s3)"
    unfolding s3_def by (rule Inr_unsafe)
  have "\<not> isl (attempt_j stub_env s3 1)" "\<not> fst (snd (projr (attempt_j stub_env s3 1)))"
    unfolding s3_def s2_def s1_def p0_def s0_def by code_simp+
  then have h6: "attempt_j stub_env s3 1 = Inr (fst (projr (attempt_j stub_env s3 1)), False, s4)"
    unfolding s4_def by (rule Inr_unsafe)
  have "\<not> isl (attempt_j stub_env s4 2)" "\<not> fst (snd (projr (attempt_j stub_env s4 2)))"
    unfolding s4_def s3_def s2_def s1_def p0_def s0_def by code_simp+
  then have h7: "attempt_j stub_env s4 2 = Inr (fst (projr (attempt_j stub_env s4 2)), False, s5)"
    unfolding s5_def by (rule Inr_unsafe)
  show ?thesis
    using exhausted_segment_fails_run [OF h1 h2 h3 h4 h5 h6 h7] h1
    by (simp add: tr_def s0_def)
qed

end
